theory Spec2Isabelle
  imports Complex_Main
begin

section \<open>The snake game of \<^verbatim>\<open>snake.py\<close>\<close>

subsection \<open>Constants and the key table\<close>

text \<open>
  A position and a direction are Python pairs of integers; the snake is a deque of
  positions with the head at the left end, modelled as a list with the head first.
\<close>

type_synonym pos = "int \<times> int"

definition WIDTH :: int where
  "WIDTH = 30"

definition HEIGHT :: int where
  "HEIGHT = 20"

definition DIR_UP :: pos where
  "DIR_UP = (0, -1)"

definition DIR_DOWN :: pos where
  "DIR_DOWN = (0, 1)"

definition DIR_LEFT :: pos where
  "DIR_LEFT = (-1, 0)"

definition DIR_RIGHT :: pos where
  "DIR_RIGHT = (1, 0)"

text \<open>The escape character \<^verbatim>\<open>\x1b\<close> that starts an ANSI arrow sequence.\<close>

definition ESC :: char where
  "ESC = CHR 0x1B"

text \<open>The dictionary literal \<^verbatim>\<open>KEY_TO_DIR\<close>, entry by entry in the order of the source.\<close>

definition KEY_TO_DIR_items :: "(string \<times> pos) list" where
  "KEY_TO_DIR_items =
     [(''H'', DIR_UP),
      (''P'', DIR_DOWN),
      (''K'', DIR_LEFT),
      (''M'', DIR_RIGHT),
      ([ESC, CHR ''['', CHR ''A''], DIR_UP),
      ([ESC, CHR ''['', CHR ''B''], DIR_DOWN),
      ([ESC, CHR ''['', CHR ''D''], DIR_LEFT),
      ([ESC, CHR ''['', CHR ''C''], DIR_RIGHT),
      (''w'', DIR_UP),
      (''s'', DIR_DOWN),
      (''a'', DIR_LEFT),
      (''d'', DIR_RIGHT),
      (''W'', DIR_UP),
      (''S'', DIR_DOWN),
      (''A'', DIR_LEFT),
      (''D'', DIR_RIGHT)]"

definition KEY_TO_DIR :: "string \<rightharpoonup> pos" where
  "KEY_TO_DIR = map_of KEY_TO_DIR_items"

subsection \<open>Floating point\<close>

text \<open>
  \<^verbatim>\<open>BASE_TICK\<close>, the tick interval and the clock readings are Python floats. A float
  operation is the exact operation on the reals followed by a rounding \<open>rd\<close>, which is
  a parameter of the model; a float literal is the rounding of its decimal value.
  Nothing is assumed about \<open>rd\<close> in the definitions. The theorems that need it ask for
  \<open>rounding rd\<close>: rounding is monotone, leaves a rounded value alone and leaves zero
  alone, which holds of round-to-nearest and of exact arithmetic alike. The score is far
  below \<open>2 ^ 53\<close>, so its conversion to a float is exact.
\<close>

definition rounding :: "(real \<Rightarrow> real) \<Rightarrow> bool" where
  "rounding rd = (mono rd \<and> (\<forall>x. rd (rd x) = rd x) \<and> rd 0 = 0)"

definition fsub :: "(real \<Rightarrow> real) \<Rightarrow> real \<Rightarrow> real \<Rightarrow> real" where
  "fsub rd a b = rd (a - b)"

definition fmul :: "(real \<Rightarrow> real) \<Rightarrow> real \<Rightarrow> real \<Rightarrow> real" where
  "fmul rd a b = rd (a * b)"

definition BASE_TICK :: "(real \<Rightarrow> real) \<Rightarrow> real" where
  "BASE_TICK rd = rd (12 / 100)"

subsection \<open>\<^verbatim>\<open>is_opposite\<close> and \<^verbatim>\<open>place_food\<close>\<close>

definition is_opposite :: "pos \<Rightarrow> pos \<Rightarrow> bool" where
  "is_opposite a b = (fst a = - fst b \<and> snd a = - snd b)"

text \<open>
  \<^verbatim>\<open>random.randint(a, b)\<close> returns some integer of the closed range from \<open>a\<close> to
  \<open>b\<close>. The generator is a stream \<open>rnd\<close> of naturals read at an index; a draw is
  reduced into the range, so every sequence of results that \<^verbatim>\<open>randint\<close> can produce
  is the image of some stream, and no stream produces anything else.
\<close>

definition randint :: "int \<Rightarrow> int \<Rightarrow> nat \<Rightarrow> int" where
  "randint a b r = a + int (r mod nat (b - a + 1))"

text \<open>The pair drawn by one round of the loop of \<^verbatim>\<open>place_food\<close>: first x, then y.\<close>

definition draw_pos :: "(nat \<Rightarrow> nat) \<Rightarrow> nat \<Rightarrow> pos" where
  "draw_pos rnd i = (randint 0 (WIDTH - 1) (rnd i), randint 0 (HEIGHT - 1) (rnd (Suc i)))"

text \<open>
  \<^verbatim>\<open>place_food\<close> loops until a drawn position is free. The loop has no bound, so the
  function is partial: \<open>None\<close> is the run that never returns. The result carries the
  index of the stream after the draws that were used.
\<close>

partial_function (option) place_food :: "(nat \<Rightarrow> nat) \<Rightarrow> nat \<Rightarrow> pos set \<Rightarrow> (pos \<times> nat) option" where
  "place_food rnd i snake_set =
     (if draw_pos rnd i \<notin> snake_set then Some (draw_pos rnd i, i + 2)
      else place_food rnd (i + 2) snake_set)"

declare place_food.simps [code]

subsection \<open>The game state and \<^verbatim>\<open>run_game\<close>\<close>

text \<open>
  The local variables of \<^verbatim>\<open>run_game\<close>, and the index \<open>rng\<close> of the next unread draw
  of the random stream.
\<close>

record game =
  snake :: "pos list"
  direction :: pos
  score :: int
  food :: pos
  last_tick :: real
  tick :: real
  rng :: nat

datatype py_error = IndexError

text \<open>
  What one round of the \<^verbatim>\<open>while True\<close> loop ends in: the loop goes on with a new
  state, \<^verbatim>\<open>run_game\<close> returns the pair of the score and the reason, or an exception
  leaves it. A round that never ends, because \<^verbatim>\<open>place_food\<close> never returns, is
  \<open>None\<close>.
\<close>

datatype result = Running game | Returned int string | Raised py_error

text \<open>
  The deque after \<^verbatim>\<open>appendleft((start_x, start_y))\<close>, \<^verbatim>\<open>append((start_x - 1, start_y))\<close>
  and \<^verbatim>\<open>append((start_x - 2, start_y))\<close>.
\<close>

definition start_snake :: "pos list" where
  "start_snake =
     (let start_x = WIDTH div 2; start_y = HEIGHT div 2
      in (((start_x, start_y) # []) @ [(start_x - 1, start_y)]) @ [(start_x - 2, start_y)])"

text \<open>
  The state on entry to the loop. \<open>i0\<close> is where the random stream stands when the
  session starts and \<open>now0\<close> is the first reading of the clock.
\<close>

definition run_game_start :: "(real \<Rightarrow> real) \<Rightarrow> (nat \<Rightarrow> nat) \<Rightarrow> nat \<Rightarrow> real \<Rightarrow> game option" where
  "run_game_start rd rnd i0 now0 =
     (case place_food rnd i0 (set start_snake) of
        None \<Rightarrow> None
      | Some (food0, i1) \<Rightarrow>
          Some \<lparr>snake = start_snake, direction = DIR_RIGHT, score = 0, food = food0,
                last_tick = now0, tick = BASE_TICK rd, rng = i1\<rparr>)"

text \<open>
  The direction after the key has been looked at: a key of the table whose direction is
  not the opposite of the current one replaces it. \<open>None\<close> is the poll that read no key;
  it is not a key of the dictionary.
\<close>

definition turn :: "string option \<Rightarrow> pos \<Rightarrow> pos" where
  "turn key dir =
     (case key of
        None \<Rightarrow> dir
      | Some k \<Rightarrow>
          (case KEY_TO_DIR k of
             None \<Rightarrow> dir
           | Some candidate \<Rightarrow> if \<not> is_opposite candidate dir then candidate else dir))"

text \<open>
  The tick interval that an eating update computes from the score it has just
  incremented: \<^verbatim>\<open>max(0.05, BASE_TICK - score * 0.002)\<close>.
\<close>

definition tick_interval :: "(real \<Rightarrow> real) \<Rightarrow> int \<Rightarrow> real" where
  "tick_interval rd sc = max (rd (5 / 100)) (fsub rd (BASE_TICK rd) (fmul rd (of_int sc) (rd (2 / 1000))))"

text \<open>
  The body of \<^verbatim>\<open>if now - last_tick >= tick\<close>: one update of the game. \<^verbatim>\<open>snake[0]\<close>
  raises on an empty deque; \<^verbatim>\<open>snake.pop()\<close> removes the right end, and runs on a deque
  that has just been given an element.
\<close>

definition run_game_tick :: "(real \<Rightarrow> real) \<Rightarrow> (nat \<Rightarrow> nat) \<Rightarrow> real \<Rightarrow> game \<Rightarrow> result option" where
  "run_game_tick rd rnd now s =
     (case snake s of
        [] \<Rightarrow> Some (Raised IndexError)
      | (head_x, head_y) # _ \<Rightarrow>
          (let next_head = (head_x + fst (direction s), head_y + snd (direction s))
           in if fst next_head < 0 \<or> fst next_head \<ge> WIDTH \<or> snd next_head < 0 \<or> snd next_head \<ge> HEIGHT
              then Some (Returned (score s) ''wall'')
              else if next_head \<in> set (snake s)
              then Some (Returned (score s) ''self'')
              else if next_head = food s
              then (case place_food rnd (rng s) (set (next_head # snake s)) of
                      None \<Rightarrow> None
                    | Some (food1, i1) \<Rightarrow>
                        Some (Running (s\<lparr>last_tick := now, snake := next_head # snake s,
                                score := score s + 1, food := food1, rng := i1,
                                tick := tick_interval rd (score s + 1)\<rparr>)))
              else Some (Running (s\<lparr>last_tick := now, snake := butlast (next_head # snake s)\<rparr>))))"

text \<open>
  One round of the loop. The environment gives the round what \<^verbatim>\<open>read_key()\<close> returns
  and what \<^verbatim>\<open>time.time()\<close> reads. Rendering and the sleep change no variable.
\<close>

definition run_game_iteration :: "(real \<Rightarrow> real) \<Rightarrow> (nat \<Rightarrow> nat) \<Rightarrow> game \<Rightarrow> string option \<times> real \<Rightarrow> result option" where
  "run_game_iteration rd rnd s inp =
     (case inp of (key, now) \<Rightarrow>
        if key = Some ''q'' \<or> key = Some ''Q'' then Some (Returned (score s) ''quit'')
        else (let s1 = s\<lparr>direction := turn key (direction s)\<rparr>
              in if tick s1 \<le> fsub rd now (last_tick s1) then run_game_tick rd rnd now s1
                 else Some (Running s1)))"

text \<open>
  The loop over the rounds that the environment has input for. When the inputs end with
  the loop still going, the result is the state reached.
\<close>

fun run_game_loop :: "(real \<Rightarrow> real) \<Rightarrow> (nat \<Rightarrow> nat) \<Rightarrow> game \<Rightarrow> (string option \<times> real) list \<Rightarrow> result option" where
  "run_game_loop rd rnd s [] = Some (Running s)"
| "run_game_loop rd rnd s (inp # inps) =
     (case run_game_iteration rd rnd s inp of
        None \<Rightarrow> None
      | Some (Running s1) \<Rightarrow> run_game_loop rd rnd s1 inps
      | Some (Returned sc reason) \<Rightarrow> Some (Returned sc reason)
      | Some (Raised e) \<Rightarrow> Some (Raised e))"

definition run_game :: "(real \<Rightarrow> real) \<Rightarrow> (nat \<Rightarrow> nat) \<Rightarrow> nat \<Rightarrow> real \<Rightarrow> (string option \<times> real) list \<Rightarrow> result option" where
  "run_game rd rnd i0 now0 inps =
     (case run_game_start rd rnd i0 now0 of
        None \<Rightarrow> None
      | Some s0 \<Rightarrow> run_game_loop rd rnd s0 inps)"

text \<open>
  The cell the head moves to in an update: the head plus the direction vector.
\<close>

definition next_head :: "pos list \<Rightarrow> pos \<Rightarrow> pos" where
  "next_head sn dir = (fst (hd sn) + fst dir, snd (hd sn) + snd dir)"

definition in_grid :: "pos \<Rightarrow> bool" where
  "in_grid p = (0 \<le> fst p \<and> fst p < WIDTH \<and> 0 \<le> snd p \<and> snd p < HEIGHT)"

text \<open>The states a session can be in at the start of a round of the loop.\<close>

inductive reachable :: "(real \<Rightarrow> real) \<Rightarrow> (nat \<Rightarrow> nat) \<Rightarrow> game \<Rightarrow> bool"
  for rd :: "real \<Rightarrow> real" and rnd :: "nat \<Rightarrow> nat" where
  start: "run_game_start rd rnd i0 now0 = Some s \<Longrightarrow> reachable rd rnd s"
| round: "reachable rd rnd s \<Longrightarrow> run_game_iteration rd rnd s inp = Some (Running s1) \<Longrightarrow> reachable rd rnd s1"

text \<open>
  The clock readings of successive rounds, each at least the tick interval \<open>t\<close> after
  the reading before it by the test \<^verbatim>\<open>now - last_tick >= tick\<close>, so that every round
  updates the game.
\<close>

fun due_times :: "(real \<Rightarrow> real) \<Rightarrow> real \<Rightarrow> real \<Rightarrow> real list \<Rightarrow> bool" where
  "due_times rd t prev [] = True"
| "due_times rd t prev (now # nows) = (t \<le> fsub rd now prev \<and> due_times rd t now nows)"

subsection \<open>The platform, \<^verbatim>\<open>read_key_posix\<close> and \<^verbatim>\<open>main\<close>\<close>

text \<open>
  What the imports at the top of the module leave behind: \<^verbatim>\<open>os.name\<close>, whether
  \<^verbatim>\<open>msvcrt\<close> is a module or \<^verbatim>\<open>None\<close>, and whether \<^verbatim>\<open>select\<close> is a module or
  \<^verbatim>\<open>None\<close>.
\<close>

record platform =
  os_name :: string
  has_msvcrt :: bool
  has_select :: bool

text \<open>
  \<^verbatim>\<open>read_key_posix\<close>. The environment answers the calls the function makes, in the
  order it makes them: \<open>ready n\<close> is whether call number \<open>n\<close> of
  \<^verbatim>\<open>select.select([sys.stdin], [], [], 0)\<close> reports standard input readable, and
  \<open>reads n\<close> is the string that call number \<open>n\<close> of \<^verbatim>\<open>sys.stdin.read(1)\<close> returns,
  one character or the empty string at the end of the input. Nothing is assumed about
  how the terminal or the buffer of \<^verbatim>\<open>sys.stdin\<close> delivers the characters. The result
  is the key returned and the number of calls of \<^verbatim>\<open>read(1)\<close> made.
\<close>

definition read_key_posix :: "platform \<Rightarrow> (nat \<Rightarrow> bool) \<Rightarrow> (nat \<Rightarrow> string) \<Rightarrow> string option \<times> nat" where
  "read_key_posix p ready reads =
     (if \<not> has_select p then (None, 0)
      else if \<not> ready 0 then (None, 0)
      else (let ch = reads 0
            in if ch \<noteq> [ESC] then (Some ch, 1)
               else if ready 1
               then (let ch2 = reads 1
                     in if ch2 = ''['' \<and> ready 2
                        then (let ch3 = reads 2 in (Some (ch @ ch2 @ ch3), 3))
                        else (Some (ch @ ch2), 2))
               else (Some ch, 1)))"

text \<open>
  The lines \<^verbatim>\<open>main\<close> prints: the diagnostic about \<^verbatim>\<open>msvcrt\<close>, the empty line, the
  line of a quit with its score, the line of a game over with its reason and score, and
  the prompt of \<^verbatim>\<open>input\<close>.
\<close>

datatype line = Requires_msvcrt | Blank | Quit_line int | Game_over string int | Play_again

text \<open>
  The loop of \<^verbatim>\<open>main\<close>. The environment gives, for each call of \<^verbatim>\<open>run_game\<close> that
  returns, the pair returned and the answer at the prompt, stripped and in lower case.
  The result is the lines printed and the number of calls of \<^verbatim>\<open>run_game\<close>; the call
  made when the list has ended is one that has not returned.
\<close>

fun main_loop :: "((int \<times> string) \<times> string) list \<Rightarrow> line list \<times> nat" where
  "main_loop [] = ([], 1)"
| "main_loop (((sc, reason), choice) # rest) =
     (if reason = ''quit'' then ([Blank, Quit_line sc], 1)
      else if choice \<noteq> ''y'' \<and> choice \<noteq> ''yes'' then ([Blank, Game_over reason sc, Play_again], 1)
      else (case main_loop rest of
              (ls, n) \<Rightarrow> ([Blank, Game_over reason sc, Play_again] @ ls, Suc n)))"

definition main :: "platform \<Rightarrow> ((int \<times> string) \<times> string) list \<Rightarrow> line list \<times> nat" where
  "main p sessions =
     (if os_name p = ''nt'' \<and> \<not> has_msvcrt p then ([Requires_msvcrt], 0)
      else main_loop sessions)"

subsection \<open>Invariant and sample data\<close>

text \<open>
  What holds of the state at the start of every round of a session: the snake is not
  empty, lies in the grid and visits no cell twice, its length is three more than the
  score, and the food lies in the grid on a cell that is free.
\<close>

definition session_inv :: "game \<Rightarrow> bool" where
  "session_inv s =
     (snake s \<noteq> [] \<and> list_all in_grid (snake s) \<and> distinct (snake s)
      \<and> int (length (snake s)) = 3 + score s \<and> food s \<notin> set (snake s) \<and> in_grid (food s))"

text \<open>
  A snake on every cell of the grid but \<open>(0, 0)\<close>, each segment next to the one
  before it: the head at \<open>(0, 1)\<close>, behind it the column \<open>x = 0\<close> down to \<open>(0, 19)\<close>,
  the rows from \<open>y = 19\<close> to \<open>y = 1\<close> over the columns 1 to 29, run through in
  alternating directions, and the row \<open>y = 0\<close> from \<open>(29, 0)\<close> to the tail at
  \<open>(1, 0)\<close>.
\<close>

definition full_snake :: "pos list" where
  "full_snake =
     (0, 1) # map (\<lambda>y. (0, y)) [2..19]
     @ concat (map (\<lambda>y. map (\<lambda>x. (x, y)) (if odd y then [1..29] else rev [1..29])) (rev [1..19]))
     @ map (\<lambda>x. (x, 0)) (rev [1..29])"

text \<open>
  A sample session in exact arithmetic. The stream draws \<open>(16, 10)\<close> for the first
  food and \<open>(0, 0)\<close> afterwards; the clock reads 0 at the start and advances by one
  each round. The snake eats in the first round, then turns down and then left, which
  leaves its head at \<open>(15, 11)\<close> right below its tail at \<open>(15, 10)\<close>.
\<close>

definition demo_rnd :: "nat \<Rightarrow> nat" where
  "demo_rnd i = (if i = 0 then 16 else if i = 1 then 10 else 0)"

definition demo_s0 :: game where
  "demo_s0 = \<lparr>snake = [(15, 10), (14, 10), (13, 10)], direction = DIR_RIGHT, score = 0, food = (16, 10),
     last_tick = 0, tick = 12 / 100, rng = 2\<rparr>"

definition demo_s1 :: game where
  "demo_s1 = \<lparr>snake = [(16, 10), (15, 10), (14, 10), (13, 10)], direction = DIR_RIGHT, score = 1, food = (0, 0),
     last_tick = 1, tick = 118 / 1000, rng = 4\<rparr>"

definition demo_s2 :: game where
  "demo_s2 = \<lparr>snake = [(16, 11), (16, 10), (15, 10), (14, 10)], direction = DIR_DOWN, score = 1, food = (0, 0),
     last_tick = 2, tick = 118 / 1000, rng = 4\<rparr>"

definition demo_s3 :: game where
  "demo_s3 = \<lparr>snake = [(15, 11), (16, 11), (16, 10), (15, 10)], direction = DIR_LEFT, score = 1, food = (0, 0),
     last_tick = 3, tick = 118 / 1000, rng = 4\<rparr>"

text \<open>
  A platform that is not Windows and on which the import of \<^verbatim>\<open>select\<close>, \<^verbatim>\<open>termios\<close>
  and \<^verbatim>\<open>tty\<close> has failed, so that neither way of reading a key is there.
\<close>

definition bare_posix :: platform where
  "bare_posix = \<lparr>os_name = ''posix'', has_msvcrt = False, has_select = False\<rparr>"

section \<open>Properties\<close>

subsection \<open>\<^verbatim>\<open>place_food\<close>\<close>

lemma draw_pos_in_grid: "in_grid (draw_pos rnd i)"
  by (simp add: in_grid_def draw_pos_def randint_def WIDTH_def HEIGHT_def)

lemma place_food_accept:
  "draw_pos rnd i \<notin> S \<Longrightarrow> place_food rnd i S = Some (draw_pos rnd i, i + 2)"
  by (subst place_food.simps) simp

lemma place_food_reject:
  "draw_pos rnd i \<in> S \<Longrightarrow> place_food rnd i S = place_food rnd (i + 2) S"
  by (subst place_food.simps) simp

text \<open>A result of \<^verbatim>\<open>place_food\<close> is a pair that was drawn and is not in the set.\<close>

lemma place_food_sound:
  "place_food rnd i S = Some (p, j) \<Longrightarrow> p \<notin> S \<and> (\<exists>k. p = draw_pos rnd k)"
proof (induction rnd i S "(p, j)" arbitrary: p j rule: place_food.raw_induct[rotated 1, consumes 1])
  case (1 pf rnd i S)
  then show ?case by (auto split: if_splits)
qed

text \<open>The loop ends as soon as the stream draws a free cell.\<close>

lemma place_food_returns:
  "draw_pos rnd (i + 2 * k) \<notin> S \<Longrightarrow> \<exists>r. place_food rnd i S = Some r"
proof (induction k arbitrary: i)
  case 0
  then show ?case by (simp add: place_food_accept)
next
  case (Suc k)
  have "draw_pos rnd ((i + 2) + 2 * k) \<notin> S"
    using Suc.prems by (simp add: add.commute add.left_commute)
  from Suc.IH[OF this] show ?case
    by (cases "draw_pos rnd i \<in> S") (simp_all add: place_food_accept place_food_reject)
qed

lemma place_food_full:
  assumes "\<forall>p. in_grid p \<longrightarrow> p \<in> S"
  shows "place_food rnd i S = None"
proof (rule ccontr)
  assume "place_food rnd i S \<noteq> None"
  then obtain r where "place_food rnd i S = Some r" by auto
  then show False using assms
  proof (induction rule: place_food.raw_induct[rotated 1, consumes 1])
    case (1 pf rnd i S r)
    have "draw_pos rnd i \<in> S" using 1(3) draw_pos_in_grid[of rnd i] by blast
    with 1(2) have "pf rnd (i + 2) S = Some r" by simp
    then show ?case using 1(1) 1(3) by (metis surj_pair)
  qed
qed

lemma full_snake_covers: "in_grid p \<Longrightarrow> p \<in> set ((0, 0) # full_snake)"
proof -
  assume g: "in_grid p"
  obtain x y where p: "p = (x, y)" by (cases p)
  have r: "0 \<le> x" "x \<le> 29" "0 \<le> y" "y \<le> 19"
    using g p by (auto simp: in_grid_def WIDTH_def HEIGHT_def)
  consider "x = 0 \<and> y = 0" | "x = 0 \<and> y = 1" | "x = 0 \<and> 2 \<le> y" | "1 \<le> x \<and> y = 0" | "1 \<le> x \<and> 1 \<le> y"
    using r by linarith
  then show ?thesis
  proof cases
    case 1 then show ?thesis using p by simp
  next
    case 2 then show ?thesis using p by (simp add: full_snake_def)
  next
    case 3 then show ?thesis using p r by (simp add: full_snake_def image_iff del: upto_rec_numeral)
  next
    case 4 then show ?thesis using p r by (simp add: full_snake_def image_iff del: upto_rec_numeral)
  next
    case 5 then show ?thesis using p r by (simp add: full_snake_def image_iff del: upto_rec_numeral)
  qed
qed

lemma full_snake_free: "(0, 0) \<notin> set full_snake"
  by (simp add: full_snake_def image_iff del: upto_rec_numeral)

text \<open>
  Claim C7. Whenever \<^verbatim>\<open>place_food(snake_set)\<close> returns, the position returned is a
  cell of the grid, \<open>0 \<le> x < WIDTH\<close> and \<open>0 \<le> y < HEIGHT\<close>, that is not in
  \<open>snake_set\<close>. This holds of every set, so of every snake that covers at most
  \<open>WIDTH * HEIGHT - 1\<close> cells.
\<close>

theorem place_food_free_cell:
  assumes "place_food rnd i snake_set = Some (p, j)"
  shows "0 \<le> fst p \<and> fst p < WIDTH \<and> 0 \<le> snd p \<and> snd p < HEIGHT \<and> p \<notin> snake_set"
  using place_food_sound[OF assms] draw_pos_in_grid[of rnd] by (auto simp: in_grid_def)

theorem place_food_free_cell_witness:
  "place_food (\<lambda>_. 0) 0 (set start_snake) = Some ((0, 0), 2)
   \<and> (0::int) \<le> fst (0::int, 0::int) \<and> fst (0::int, 0::int) < WIDTH
   \<and> (0::int) \<le> snd (0::int, 0::int) \<and> snd (0::int, 0::int) < HEIGHT
   \<and> (0, 0) \<notin> set start_snake"
proof -
  have h: "place_food (\<lambda>_. 0) 0 (set start_snake) = Some ((0, 0), 2)"
    by (subst place_food.simps) (simp add: draw_pos_def randint_def start_snake_def WIDTH_def HEIGHT_def)
  from place_food_free_cell[OF h] h show ?thesis by simp
qed

text \<open>
  Claim C10. When \<open>snake_set\<close> contains every cell of the grid, \<^verbatim>\<open>place_food(snake_set)\<close>
  never returns, whatever the random stream: every pair drawn is rejected. So when the
  snake eats the food on the last free cell, and then covers the grid, the update never
  ends and the session returns no result.
\<close>

theorem full_grid_never_returns:
  assumes "\<forall>x y. 0 \<le> x \<and> x < WIDTH \<and> 0 \<le> y \<and> y < HEIGHT \<longrightarrow> (x, y) \<in> snake_set"
  shows "place_food rnd i snake_set = None
     \<and> (\<forall>s. snake s \<noteq> [] \<and> next_head (snake s) (direction s) = food s \<and> in_grid (food s)
            \<and> food s \<notin> set (snake s) \<and> set (food s # snake s) = snake_set
          \<longrightarrow> run_game_tick rd rnd now s = None)
     \<and> (\<forall>s key inps. key \<noteq> Some ''q'' \<and> key \<noteq> Some ''Q'' \<and> tick s \<le> fsub rd now (last_tick s)
            \<and> snake s \<noteq> [] \<and> next_head (snake s) (turn key (direction s)) = food s \<and> in_grid (food s)
            \<and> food s \<notin> set (snake s) \<and> set (food s # snake s) = snake_set
          \<longrightarrow> run_game_loop rd rnd s ((key, now) # inps) = None)"
proof -
  have full: "\<forall>p. in_grid p \<longrightarrow> p \<in> snake_set" using assms by (auto simp: in_grid_def)
  have pf: "\<And>i. place_food rnd i snake_set = None" by (rule place_food_full[OF full])
  have upd: "run_game_tick rd rnd now s = None"
    if a: "snake s \<noteq> [] \<and> next_head (snake s) (direction s) = food s \<and> in_grid (food s)
          \<and> food s \<notin> set (snake s) \<and> set (food s # snake s) = snake_set" for s :: game
  proof -
    from a obtain h t where sn: "snake s = h # t" by (cases "snake s") auto
    obtain hx hy where h: "h = (hx, hy)" by (cases h)
    have fx: "hx + fst (direction s) = fst (food s)" and fy: "hy + snd (direction s) = snd (food s)"
      using a sn h by (auto simp: next_head_def dest: arg_cong[where f = fst] arg_cong[where f = snd])
    have g: "\<not> fst (food s) < 0" "\<not> WIDTH \<le> fst (food s)" "\<not> snd (food s) < 0" "\<not> HEIGHT \<le> snd (food s)"
      using a by (auto simp: in_grid_def)
    have fresh: "food s \<notin> set t" "food s \<noteq> (hx, hy)" using a sn h by auto
    have "place_food rnd (rng s) (insert (food s) (insert (hx, hy) (set t))) = None"
      using a pf sn h by simp
    then show ?thesis
      using g fresh by (simp add: run_game_tick_def sn h Let_def fx fy)
  qed
  have session: "run_game_loop rd rnd s ((key, now) # inps) = None"
    if b: "key \<noteq> Some ''q'' \<and> key \<noteq> Some ''Q'' \<and> tick s \<le> fsub rd now (last_tick s)
            \<and> snake s \<noteq> [] \<and> next_head (snake s) (turn key (direction s)) = food s \<and> in_grid (food s)
            \<and> food s \<notin> set (snake s) \<and> set (food s # snake s) = snake_set" for s :: game and key inps
  proof -
    have "run_game_tick rd rnd now (s\<lparr>direction := turn key (direction s)\<rparr>) = None"
      using b by (intro upd) simp
    then have "run_game_iteration rd rnd s (key, now) = None"
      using b by (simp add: run_game_iteration_def Let_def)
    then show ?thesis by simp
  qed
  show ?thesis using pf upd session by blast
qed

theorem full_grid_never_returns_witness:
  "place_food (\<lambda>i. i) 0 (set ((0, 0) # full_snake)) = None
   \<and> run_game_tick (\<lambda>x. x) (\<lambda>i. i) 1
        \<lparr>snake = full_snake, direction = DIR_UP, score = 596, food = (0, 0),
         last_tick = 0, tick = tick_interval (\<lambda>x. x) 596, rng = 0\<rparr> = None
   \<and> run_game_loop (\<lambda>x. x) (\<lambda>i. i)
        \<lparr>snake = full_snake, direction = DIR_UP, score = 596, food = (0, 0),
         last_tick = 0, tick = tick_interval (\<lambda>x. x) 596, rng = 0\<rparr> [(None, 1)] = None"
proof -
  let ?s = "\<lparr>snake = full_snake, direction = DIR_UP, score = 596, food = (0, 0),
         last_tick = 0, tick = tick_interval (\<lambda>x. x) 596, rng = 0\<rparr>"
  have cover: "\<forall>x y. 0 \<le> x \<and> x < WIDTH \<and> 0 \<le> y \<and> y < HEIGHT \<longrightarrow> (x, y) \<in> set ((0, 0) # full_snake)"
    using full_snake_covers by (auto simp: in_grid_def simp del: set_simps)
  have st: "snake ?s \<noteq> [] \<and> next_head (snake ?s) (direction ?s) = food ?s \<and> in_grid (food ?s)
          \<and> food ?s \<notin> set (snake ?s) \<and> set (food ?s # snake ?s) = set ((0, 0) # full_snake)"
    using full_snake_free
    by (simp add: next_head_def DIR_UP_def in_grid_def WIDTH_def HEIGHT_def) (simp add: full_snake_def)
  have due: "(None :: string option) \<noteq> Some ''q'' \<and> (None :: string option) \<noteq> Some ''Q''
      \<and> tick ?s \<le> fsub (\<lambda>x. x) 1 (last_tick ?s)"
    by (simp add: tick_interval_def fsub_def fmul_def BASE_TICK_def)
  have st2: "snake ?s \<noteq> [] \<and> next_head (snake ?s) (turn None (direction ?s)) = food ?s \<and> in_grid (food ?s)
          \<and> food ?s \<notin> set (snake ?s) \<and> set (food ?s # snake ?s) = set ((0, 0) # full_snake)"
    using st by (simp add: turn_def)
  from full_grid_never_returns[OF cover, of "\<lambda>i. i" 0 "\<lambda>x. x" 1] st st2 due show ?thesis by blast
qed

subsection \<open>The session invariant\<close>

lemma start_inv: "run_game_start rd rnd i0 now0 = Some s \<Longrightarrow> session_inv s"
  unfolding run_game_start_def
  by (auto split: option.splits simp: session_inv_def start_snake_def WIDTH_def HEIGHT_def in_grid_def
      dest!: place_food_sound) (use draw_pos_in_grid in \<open>auto simp: in_grid_def WIDTH_def HEIGHT_def\<close>)

text \<open>What an update that lets the loop go on has done.\<close>

lemma tick_running:
  assumes "run_game_tick rd rnd now s = Some (Running s1)"
  shows "snake s \<noteq> [] \<and> in_grid (next_head (snake s) (direction s))
     \<and> next_head (snake s) (direction s) \<notin> set (snake s)
     \<and> direction s1 = direction s
     \<and> (if next_head (snake s) (direction s) = food s
        then snake s1 = next_head (snake s) (direction s) # snake s \<and> score s1 = score s + 1
           \<and> tick s1 = tick_interval rd (score s + 1)
           \<and> place_food rnd (rng s) (set (snake s1)) = Some (food s1, rng s1)
        else snake s1 = next_head (snake s) (direction s) # butlast (snake s) \<and> score s1 = score s
           \<and> tick s1 = tick s \<and> food s1 = food s \<and> rng s1 = rng s)"
  using assms unfolding run_game_tick_def next_head_def in_grid_def
  by (auto split: list.splits if_splits option.splits prod.splits simp: Let_def)

lemma iteration_running:
  assumes "run_game_iteration rd rnd s (key, now) = Some (Running s1)"
  shows "key \<noteq> Some ''q'' \<and> key \<noteq> Some ''Q'' \<and>
     (if tick s \<le> fsub rd now (last_tick s)
      then run_game_tick rd rnd now (s\<lparr>direction := turn key (direction s)\<rparr>) = Some (Running s1)
      else s1 = s\<lparr>direction := turn key (direction s)\<rparr>)"
  using assms unfolding run_game_iteration_def
  by (auto split: if_splits simp: Let_def)

lemma butlast_cons_props:
  assumes "sn \<noteq> []" "distinct sn" "p \<notin> set sn"
  shows "distinct (p # butlast sn)" "set (p # butlast sn) \<subseteq> insert p (set sn)"
    "length (p # butlast sn) = length sn"
  using assms by (auto simp: distinct_butlast dest: in_set_butlastD)

lemma tick_inv:
  assumes "run_game_tick rd rnd now s = Some (Running s1)" "session_inv s"
  shows "session_inv s1"
proof -
  let ?nh = "next_head (snake s) (direction s)"
  note t = tick_running[OF assms(1)]
  have ne: "snake s \<noteq> []" and g: "in_grid ?nh" and fresh: "?nh \<notin> set (snake s)"
    using t by auto
  show ?thesis
  proof (cases "?nh = food s")
    case True
    then have sn: "snake s1 = ?nh # snake s" and sc: "score s1 = score s + 1"
      and pf: "place_food rnd (rng s) (set (snake s1)) = Some (food s1, rng s1)"
      using t by auto
    from place_food_sound[OF pf] have "food s1 \<notin> set (snake s1)" "in_grid (food s1)"
      using draw_pos_in_grid by auto
    then show ?thesis using assms(2) sn sc g fresh by (auto simp: session_inv_def)
  next
    case False
    then have sn: "snake s1 = ?nh # butlast (snake s)" and sc: "score s1 = score s"
      and fd: "food s1 = food s"
      using t by auto
    have "distinct (snake s)" "food s \<notin> set (snake s)" "list_all in_grid (snake s)"
      using assms(2) by (auto simp: session_inv_def)
    then show ?thesis
      using assms(2) sn sc fd g fresh False butlast_cons_props[OF ne, of ?nh]
      by (auto simp: session_inv_def list_all_iff dest: in_set_butlastD)
  qed
qed

lemma iteration_inv:
  assumes "run_game_iteration rd rnd s inp = Some (Running s1)" "session_inv s"
  shows "session_inv s1"
proof -
  obtain key now where inp: "inp = (key, now)" by (cases inp)
  note it = iteration_running[OF assms(1)[unfolded inp]]
  have i: "session_inv (s\<lparr>direction := turn key (direction s)\<rparr>)"
    using assms(2) by (simp add: session_inv_def)
  show ?thesis
  proof (cases "tick s \<le> fsub rd now (last_tick s)")
    case True
    then show ?thesis using it tick_inv[OF _ i] by auto
  next
    case False
    then show ?thesis using it i by auto
  qed
qed

lemma reachable_inv: "reachable rd rnd s \<Longrightarrow> session_inv s"
  by (induction rule: reachable.induct) (auto intro: start_inv iteration_inv)

subsection \<open>The sample session\<close>

lemmas demo_defs = demo_rnd_def demo_s0_def demo_s1_def demo_s2_def demo_s3_def
  start_snake_def WIDTH_def HEIGHT_def DIR_UP_def DIR_DOWN_def DIR_LEFT_def DIR_RIGHT_def
  draw_pos_def randint_def BASE_TICK_def tick_interval_def fsub_def fmul_def
  KEY_TO_DIR_def KEY_TO_DIR_items_def ESC_def is_opposite_def turn_def

lemma demo_start: "run_game_start (\<lambda>x. x) demo_rnd 0 0 = Some demo_s0"
  by (simp add: run_game_start_def place_food_accept demo_defs)

lemma demo_round1: "run_game_iteration (\<lambda>x. x) demo_rnd demo_s0 (None, 1) = Some (Running demo_s1)"
  by (simp add: run_game_iteration_def run_game_tick_def place_food_accept demo_defs)

lemma demo_round2: "run_game_iteration (\<lambda>x. x) demo_rnd demo_s1 (Some ''s'', 2) = Some (Running demo_s2)"
  by (simp add: run_game_iteration_def run_game_tick_def demo_defs)

lemma demo_round3: "run_game_iteration (\<lambda>x. x) demo_rnd demo_s2 (Some ''a'', 3) = Some (Running demo_s3)"
  by (simp add: run_game_iteration_def run_game_tick_def demo_defs)

lemma demo_reachable:
  "reachable (\<lambda>x. x) demo_rnd demo_s0" "reachable (\<lambda>x. x) demo_rnd demo_s1"
  "reachable (\<lambda>x. x) demo_rnd demo_s2" "reachable (\<lambda>x. x) demo_rnd demo_s3"
proof -
  show r0: "reachable (\<lambda>x. x) demo_rnd demo_s0" by (rule reachable.start[OF demo_start])
  show r1: "reachable (\<lambda>x. x) demo_rnd demo_s1" by (rule reachable.round[OF r0 demo_round1])
  show r2: "reachable (\<lambda>x. x) demo_rnd demo_s2" by (rule reachable.round[OF r1 demo_round2])
  show "reachable (\<lambda>x. x) demo_rnd demo_s3" by (rule reachable.round[OF r2 demo_round3])
qed

lemma rounding_exact: "rounding (\<lambda>x. x)"
  by (simp add: rounding_def mono_def)

lemma rounding_fixed_point: "rounding (\<lambda>x. real_of_int (round (x * 2 ^ 60)) / 2 ^ 60)"
  by (auto simp: rounding_def mono_def divide_right_mono round_mono)

subsection \<open>The tick interval\<close>

lemma tick_interval_floor: "rd (5 / 100) \<le> tick_interval rd sc"
  by (simp add: tick_interval_def)

lemma tick_interval_mono:
  assumes "rounding rd" "m \<le> n"
  shows "tick_interval rd n \<le> tick_interval rd m"
proof -
  have mono: "\<And>x y. x \<le> y \<Longrightarrow> rd x \<le> rd y" using assms(1) by (auto simp: rounding_def mono_def)
  have "rd 0 \<le> rd (2 / 1000)" by (rule mono) simp
  then have c: "0 \<le> rd (2 / 1000)" using assms(1) by (simp add: rounding_def)
  have "real_of_int m * rd (2 / 1000) \<le> real_of_int n * rd (2 / 1000)"
    using assms(2) c by (simp add: mult_right_mono)
  then have "fmul rd (of_int m) (rd (2 / 1000)) \<le> fmul rd (of_int n) (rd (2 / 1000))"
    unfolding fmul_def by (rule mono)
  then have "fsub rd (BASE_TICK rd) (fmul rd (of_int n) (rd (2 / 1000)))
      \<le> fsub rd (BASE_TICK rd) (fmul rd (of_int m) (rd (2 / 1000)))"
    unfolding fsub_def by (intro mono) simp
  then show ?thesis unfolding tick_interval_def by (rule max.mono[OF order_refl])
qed

lemma tick_interval_zero:
  assumes "rounding rd"
  shows "tick_interval rd 0 = BASE_TICK rd"
proof -
  have mono: "\<And>x y. x \<le> y \<Longrightarrow> rd x \<le> rd y" using assms(1) by (auto simp: rounding_def mono_def)
  have idem: "\<And>x. rd (rd x) = rd x" and z: "rd 0 = 0" using assms by (auto simp: rounding_def)
  have "rd (5 / 100) \<le> rd (12 / 100)" by (rule mono) simp
  then show ?thesis by (simp add: tick_interval_def fsub_def fmul_def BASE_TICK_def z idem max_def)
qed

lemma reachable_tick:
  assumes "rounding rd" "reachable rd rnd s"
  shows "tick s = tick_interval rd (score s)"
  using assms(2)
proof (induction rule: reachable.induct)
  case (start i0 now0 s)
  then show ?case
    by (auto simp: run_game_start_def tick_interval_zero[OF assms(1)] split: option.splits)
next
  case (round s inp s1)
  obtain key now where inp: "inp = (key, now)" by (cases inp)
  note it = iteration_running[OF round(2)[unfolded inp]]
  show ?case
  proof (cases "tick s \<le> fsub rd now (last_tick s)")
    case True
    then have "run_game_tick rd rnd now (s\<lparr>direction := turn key (direction s)\<rparr>) = Some (Running s1)"
      using it by simp
    from tick_running[OF this] round.IH show ?thesis by (auto split: if_splits)
  next
    case False
    then show ?thesis using it round.IH by simp
  qed
qed

text \<open>
  Claim C6. In every state of a session the tick interval is
  \<^verbatim>\<open>max(0.05, BASE_TICK - score * 0.002)\<close> with \<^verbatim>\<open>BASE_TICK = 0.12\<close>, computed in floating
  point; it is never below the minimum 0.05; and as a function of the score the interval
  does not increase and never drops below the minimum.
\<close>

theorem tick_interval_law:
  assumes "rounding rd" and "reachable rd rnd s"
  shows "tick s = max (rd (5 / 100)) (fsub rd (BASE_TICK rd) (fmul rd (of_int (score s)) (rd (2 / 1000))))
     \<and> rd (5 / 100) \<le> tick s
     \<and> (\<forall>m n. m \<le> n \<longrightarrow> tick_interval rd n \<le> tick_interval rd m)
     \<and> (\<forall>n. rd (5 / 100) \<le> tick_interval rd n)"
  using reachable_tick[OF assms] tick_interval_mono[OF assms(1)] tick_interval_floor[of rd]
  by (simp add: tick_interval_def)

theorem tick_interval_law_witness:
  "rounding (\<lambda>x. x) \<and> reachable (\<lambda>x. x) demo_rnd demo_s1 \<and> score demo_s1 = 1
   \<and> tick demo_s1 = max (5 / 100) (12 / 100 - 1 * (2 / 1000))
   \<and> (5 / 100 :: real) \<le> tick demo_s1
   \<and> (2::int) \<le> 5 \<and> tick_interval (\<lambda>x. x) 5 \<le> tick_interval (\<lambda>x. x) 2"
proof -
  have h: "(2::int) \<le> 5" by simp
  from tick_interval_law[OF rounding_exact demo_reachable(2)] h
  have "tick demo_s1 = max (5 / 100) (fsub (\<lambda>x. x) (BASE_TICK (\<lambda>x. x)) (fmul (\<lambda>x. x) (of_int (score demo_s1)) (2 / 1000)))"
    and "(5 / 100 :: real) \<le> tick demo_s1"
    and "tick_interval (\<lambda>x. x) 5 \<le> tick_interval (\<lambda>x. x) 2" by blast+
  then show ?thesis using rounding_exact demo_reachable(2)
    by (simp add: demo_s1_def fsub_def fmul_def BASE_TICK_def)
qed

subsection \<open>The length of the snake\<close>

text \<open>
  Claim C4. At every round of the loop of a session the length of the snake is 3, the
  initial length, plus the score. A round that lets the loop go on either eats, and
  then the score and the length both grow by one, or leaves both as they are.
\<close>

theorem snake_length_is_three_plus_score:
  assumes "reachable rd rnd s"
  shows "length start_snake = 3
     \<and> int (length (snake s)) = 3 + score s
     \<and> (\<forall>inp s1. run_game_iteration rd rnd s inp = Some (Running s1) \<longrightarrow>
          (score s1 = score s + 1 \<and> length (snake s1) = length (snake s) + 1)
          \<or> (score s1 = score s \<and> length (snake s1) = length (snake s)))"
proof (intro conjI allI impI)
  show "length start_snake = 3" by (simp add: start_snake_def Let_def)
  show "int (length (snake s)) = 3 + score s"
    using reachable_inv[OF assms] by (simp add: session_inv_def)
next
  fix inp s1
  assume r: "run_game_iteration rd rnd s inp = Some (Running s1)"
  have a: "int (length (snake s)) = 3 + score s"
    using reachable_inv[OF assms] by (simp add: session_inv_def)
  have b: "int (length (snake s1)) = 3 + score s1"
    using reachable_inv[OF reachable.round[OF assms r]] by (simp add: session_inv_def)
  obtain key now where inp: "inp = (key, now)" by (cases inp)
  note it = iteration_running[OF r[unfolded inp]]
  have "score s1 = score s + 1 \<or> score s1 = score s"
  proof (cases "tick s \<le> fsub rd now (last_tick s)")
    case True
    then have "run_game_tick rd rnd now (s\<lparr>direction := turn key (direction s)\<rparr>) = Some (Running s1)"
      using it by simp
    from tick_running[OF this] show ?thesis by (auto split: if_splits)
  next
    case False
    then show ?thesis using it by simp
  qed
  then show "(score s1 = score s + 1 \<and> length (snake s1) = length (snake s) + 1)
          \<or> (score s1 = score s \<and> length (snake s1) = length (snake s))"
    using a b by auto
qed

theorem snake_length_is_three_plus_score_witness:
  "reachable (\<lambda>x. x) demo_rnd demo_s0
   \<and> run_game_iteration (\<lambda>x. x) demo_rnd demo_s0 (None, 1) = Some (Running demo_s1)
   \<and> int (length (snake demo_s0)) = 3 + score demo_s0
   \<and> score demo_s1 = score demo_s0 + 1 \<and> length (snake demo_s1) = length (snake demo_s0) + 1"
  using snake_length_is_three_plus_score[OF demo_reachable(1)] demo_reachable(1) demo_round1
  by (simp add: demo_s0_def demo_s1_def)

subsection \<open>Collision with the snake itself\<close>

text \<open>
  Claim C1. In a round of a session that updates the game, if the next head, the head
  plus the direction vector in force after the key of the round, is a cell of the snake
  as it is before the update, the session ends with the result \<open>self\<close>. The cell of the
  tail counts: when the next head is the cell of the tail and the snake would not eat,
  the round ends the session with \<open>self\<close> and the snake does not move.
\<close>

theorem self_collision_ends_session:
  assumes "reachable rd rnd s"
    and "key \<noteq> Some ''q''" and "key \<noteq> Some ''Q''"
    and "tick s \<le> fsub rd now (last_tick s)"
  shows "(next_head (snake s) (turn key (direction s)) \<in> set (snake s) \<longrightarrow>
            run_game_iteration rd rnd s (key, now) = Some (Returned (score s) ''self''))
     \<and> (next_head (snake s) (turn key (direction s)) = last (snake s)
          \<and> next_head (snake s) (turn key (direction s)) \<noteq> food s \<longrightarrow>
            run_game_iteration rd rnd s (key, now) = Some (Returned (score s) ''self''))"
proof -
  let ?nh = "next_head (snake s) (turn key (direction s))"
  have inv: "session_inv s" by (rule reachable_inv[OF assms(1)])
  then obtain h t where sn: "snake s = h # t" by (cases "snake s") (auto simp: session_inv_def)
  obtain hx hy where h: "h = (hx, hy)" by (cases h)
  have hit: "run_game_iteration rd rnd s (key, now) = Some (Returned (score s) ''self'')"
    if m: "?nh \<in> set (snake s)"
  proof -
    have "in_grid ?nh" using inv m by (auto simp: session_inv_def list_all_iff)
    then have g: "\<not> fst ?nh < 0" "\<not> WIDTH \<le> fst ?nh" "\<not> snd ?nh < 0" "\<not> HEIGHT \<le> snd ?nh"
      by (auto simp: in_grid_def)
    have nh: "?nh = (hx + fst (turn key (direction s)), hy + snd (turn key (direction s)))"
      by (simp add: next_head_def sn h)
    show ?thesis
      using assms(2-4) g m unfolding nh
      by (simp add: run_game_iteration_def run_game_tick_def Let_def sn h)
  qed
  have "last (snake s) \<in> set (snake s)" using sn by simp
  then show ?thesis using hit by auto
qed

theorem self_collision_ends_session_witness:
  "reachable (\<lambda>x. x) demo_rnd demo_s3
   \<and> tick demo_s3 \<le> fsub (\<lambda>x. x) 4 (last_tick demo_s3)
   \<and> next_head (snake demo_s3) (turn (Some ''w'') (direction demo_s3)) = last (snake demo_s3)
   \<and> next_head (snake demo_s3) (turn (Some ''w'') (direction demo_s3)) \<in> set (snake demo_s3)
   \<and> next_head (snake demo_s3) (turn (Some ''w'') (direction demo_s3)) \<noteq> food demo_s3
   \<and> run_game_iteration (\<lambda>x. x) demo_rnd demo_s3 (Some ''w'', 4) = Some (Returned 1 ''self'')"
proof -
  have k: "Some ''w'' \<noteq> Some ''q''" "Some ''w'' \<noteq> Some ''Q''" by simp_all
  have d: "tick demo_s3 \<le> fsub (\<lambda>x. x) 4 (last_tick demo_s3)" by (simp add: demo_s3_def fsub_def)
  have n: "next_head (snake demo_s3) (turn (Some ''w'') (direction demo_s3)) = (15, 10)"
    by (simp add: next_head_def demo_defs)
  from self_collision_ends_session[OF demo_reachable(4) k d] n d demo_reachable(4)
  show ?thesis by (simp add: demo_s3_def)
qed

subsection \<open>An update that does not eat\<close>

text \<open>
  Claim C3. When a round of a session updates the game, does not eat and does not
  collide, the snake afterwards is as long as before, its head is the old head plus the
  direction vector, every other segment is the old segment one place nearer the head,
  and the old tail has been removed: its cell is no longer part of the snake.
\<close>

theorem non_eating_tick_moves_snake:
  assumes "reachable rd rnd s"
    and "run_game_iteration rd rnd s (key, now) = Some (Running s1)"
    and "tick s \<le> fsub rd now (last_tick s)"
    and "next_head (snake s) (turn key (direction s)) \<noteq> food s"
  shows "length (snake s1) = length (snake s)
     \<and> hd (snake s1) = (fst (hd (snake s)) + fst (turn key (direction s)),
                        snd (hd (snake s)) + snd (turn key (direction s)))
     \<and> direction s1 = turn key (direction s)
     \<and> snake s1 = hd (snake s1) # butlast (snake s)
     \<and> (\<forall>i. i + 1 < length (snake s) \<longrightarrow> snake s1 ! (i + 1) = snake s ! i)
     \<and> last (snake s) \<notin> set (snake s1)"
proof -
  let ?d = "turn key (direction s)"
  let ?nh = "next_head (snake s) ?d"
  have inv: "session_inv s" by (rule reachable_inv[OF assms(1)])
  have t: "run_game_tick rd rnd now (s\<lparr>direction := ?d\<rparr>) = Some (Running s1)"
    using iteration_running[OF assms(2)] assms(3) by simp
  from tick_running[OF t] assms(4)
  have ne: "snake s \<noteq> []" and fresh: "?nh \<notin> set (snake s)" and dir: "direction s1 = ?d"
    and sn: "snake s1 = ?nh # butlast (snake s)" by auto
  have nth: "snake s1 ! (i + 1) = snake s ! i" if "i + 1 < length (snake s)" for i
    using that sn by (simp add: nth_butlast)
  have "distinct (snake s)" using inv by (simp add: session_inv_def)
  then have "distinct (butlast (snake s) @ [last (snake s)])" using ne by simp
  then have "last (snake s) \<notin> set (butlast (snake s))" by simp
  moreover have "last (snake s) \<noteq> ?nh" using fresh ne last_in_set by metis
  ultimately have gone: "last (snake s) \<notin> set (snake s1)" using sn by simp
  show ?thesis using sn ne dir nth gone by (simp add: next_head_def)
qed

theorem non_eating_tick_moves_snake_witness:
  "reachable (\<lambda>x. x) demo_rnd demo_s1
   \<and> run_game_iteration (\<lambda>x. x) demo_rnd demo_s1 (Some ''s'', 2) = Some (Running demo_s2)
   \<and> tick demo_s1 \<le> fsub (\<lambda>x. x) 2 (last_tick demo_s1)
   \<and> next_head (snake demo_s1) (turn (Some ''s'') (direction demo_s1)) \<noteq> food demo_s1
   \<and> snake demo_s1 = [(16, 10), (15, 10), (14, 10), (13, 10)]
   \<and> snake demo_s2 = [(16, 11), (16, 10), (15, 10), (14, 10)]
   \<and> length (snake demo_s2) = length (snake demo_s1)
   \<and> (0 + 1 < length (snake demo_s1) \<and> snake demo_s2 ! (0 + 1) = snake demo_s1 ! 0)
   \<and> last (snake demo_s1) \<notin> set (snake demo_s2)"
proof -
  have d: "tick demo_s1 \<le> fsub (\<lambda>x. x) 2 (last_tick demo_s1)" by (simp add: demo_s1_def fsub_def)
  have n: "next_head (snake demo_s1) (turn (Some ''s'') (direction demo_s1)) \<noteq> food demo_s1"
    by (simp add: next_head_def demo_defs)
  from non_eating_tick_moves_snake[OF demo_reachable(2) demo_round2 d n] d n demo_reachable(2) demo_round2
  show ?thesis by (simp add: demo_s1_def demo_s2_def)
qed

subsection \<open>The run into the right wall\<close>

lemma run_game_loop_append:
  "run_game_loop rd rnd s (xs @ ys) =
     (case run_game_loop rd rnd s xs of
        Some (Running s1) \<Rightarrow> run_game_loop rd rnd s1 ys
      | r \<Rightarrow> r)"
  by (induction xs arbitrary: s) (auto split: option.splits result.splits)

lemma due_times_take: "due_times rd t prev nows \<Longrightarrow> due_times rd t prev (take k nows)"
proof (induction nows arbitrary: prev k)
  case Nil
  then show ?case by simp
next
  case (Cons now nows)
  then show ?case by (cases k) auto
qed

lemma due_times_drop:
  "due_times rd t prev nows \<Longrightarrow> k < length nows \<Longrightarrow> t \<le> fsub rd (nows ! k) (last (prev # take k nows))"
proof (induction nows arbitrary: prev k)
  case Nil
  then show ?case by simp
next
  case (Cons now nows)
  show ?case
  proof (cases k)
    case 0
    then show ?thesis using Cons.prems by simp
  next
    case (Suc j)
    then show ?thesis using Cons.prems Cons.IH[of now j] by simp
  qed
qed

text \<open>A straight run to the right with no food ahead.\<close>

lemma straight_run:
  assumes "snake s = [(x, 10), (x - 1, 10), (x - 2, 10)]" "direction s = DIR_RIGHT"
    and "tick s = t" "last_tick s = prev" "score s = 0"
    and "\<not> (snd (food s) = 10 \<and> x < fst (food s))"
    and "due_times rd t prev nows" "0 \<le> x" "x + int (length nows) < WIDTH"
  shows "\<exists>s1. run_game_loop rd rnd s (map (Pair None) nows) = Some (Running s1)
      \<and> snake s1 = [(x + int (length nows), 10), (x + int (length nows) - 1, 10), (x + int (length nows) - 2, 10)]
      \<and> direction s1 = DIR_RIGHT \<and> tick s1 = t \<and> last_tick s1 = last (prev # nows) \<and> score s1 = 0
      \<and> food s1 = food s"
  using assms
proof (induction nows arbitrary: s x prev)
  case Nil
  then show ?case by simp
next
  case (Cons now nows)
  let ?s1 = "s\<lparr>last_tick := now, snake := [(x + 1, 10), (x, 10), (x - 1, 10)]\<rparr>"
  have nf: "(x + 1, 10) \<noteq> food s" using Cons.prems(6) by (cases "food s") auto
  have step: "run_game_iteration rd rnd s (None, now) = Some (Running ?s1)"
    using Cons.prems nf
    by (simp add: run_game_iteration_def run_game_tick_def turn_def DIR_RIGHT_def HEIGHT_def Let_def)
  have "\<exists>s2. run_game_loop rd rnd ?s1 (map (Pair None) nows) = Some (Running s2)
      \<and> snake s2 = [(x + 1 + int (length nows), 10), (x + 1 + int (length nows) - 1, 10), (x + 1 + int (length nows) - 2, 10)]
      \<and> direction s2 = DIR_RIGHT \<and> tick s2 = t \<and> last_tick s2 = last (now # nows) \<and> score s2 = 0
      \<and> food s2 = food ?s1"
    using Cons.prems by (intro Cons.IH) auto
  then show ?case using step by (auto simp: add.assoc add.commute add.left_commute)
qed

text \<open>
  Claim C2. On the grid of 30 by 20 a session starts with the snake
  \<open>(15, 10), (14, 10), (13, 10)\<close> facing right. With no key pressed, no food on the
  row ahead and every round updating the game, the snake after one update is
  \<open>(16, 10), (15, 10), (14, 10)\<close>; after \<open>k \<le> 14\<close> updates its head is at
  \<open>(15 + k, 10)\<close> and the session goes on; and the fifteenth update, the first whose
  next head has \<open>x = 30\<close> and so fails \<open>x < WIDTH\<close>, ends the session with the score 0
  and the reason \<open>wall\<close>.
\<close>

theorem wall_scenario:
  assumes "run_game_start rd rnd i0 now0 = Some s0"
    and "\<not> (snd (food s0) = 10 \<and> 15 < fst (food s0))"
    and "length nows = 15" and "due_times rd (BASE_TICK rd) now0 nows"
  shows "snake s0 = [(15, 10), (14, 10), (13, 10)] \<and> direction s0 = DIR_RIGHT
     \<and> (\<exists>s1. run_game rd rnd i0 now0 (map (Pair None) (take 1 nows)) = Some (Running s1)
            \<and> snake s1 = [(16, 10), (15, 10), (14, 10)])
     \<and> (\<forall>k \<le> 14. \<exists>s. run_game rd rnd i0 now0 (map (Pair None) (take k nows)) = Some (Running s)
            \<and> snake s = [(15 + int k, 10), (14 + int k, 10), (13 + int k, 10)] \<and> score s = 0
            \<and> next_head (snake s) (direction s) = (16 + int k, 10))
     \<and> run_game rd rnd i0 now0 (map (Pair None) nows) = Some (Returned 0 ''wall'')"
proof -
  have s0: "snake s0 = [(15, 10), (14, 10), (13, 10)]" "direction s0 = DIR_RIGHT"
    "tick s0 = BASE_TICK rd" "last_tick s0 = now0" "score s0 = 0"
    using assms(1)
    by (auto simp: run_game_start_def start_snake_def WIDTH_def HEIGHT_def split: option.splits)
  have run: "run_game rd rnd i0 now0 inps = run_game_loop rd rnd s0 inps" for inps
    by (simp add: run_game_def assms(1))
  have prefix: "\<exists>s. run_game_loop rd rnd s0 (map (Pair None) (take k nows)) = Some (Running s)
      \<and> snake s = [(15 + int k, 10), (14 + int k, 10), (13 + int k, 10)] \<and> score s = 0
      \<and> direction s = DIR_RIGHT \<and> tick s = BASE_TICK rd \<and> last_tick s = last (now0 # take k nows)"
    if k: "k \<le> 14" for k
  proof -
    have len: "length (take k nows) = k" using k assms(3) by simp
    have "\<exists>s1. run_game_loop rd rnd s0 (map (Pair None) (take k nows)) = Some (Running s1)
      \<and> snake s1 = [(15 + int (length (take k nows)), 10), (15 + int (length (take k nows)) - 1, 10),
                     (15 + int (length (take k nows)) - 2, 10)]
      \<and> direction s1 = DIR_RIGHT \<and> tick s1 = BASE_TICK rd \<and> last_tick s1 = last (now0 # take k nows)
      \<and> score s1 = 0 \<and> food s1 = food s0"
      using s0 assms(2) due_times_take[OF assms(4)] k
      by (intro straight_run) (auto simp: len WIDTH_def)
    then show ?thesis unfolding len by auto
  qed
  have one: "\<exists>s1. run_game rd rnd i0 now0 (map (Pair None) (take 1 nows)) = Some (Running s1)
            \<and> snake s1 = [(16, 10), (15, 10), (14, 10)]"
    using prefix[of 1] by (auto simp: run)
  obtain s14 where s14: "run_game_loop rd rnd s0 (map (Pair None) (take 14 nows)) = Some (Running s14)"
      "snake s14 = [(29, 10), (28, 10), (27, 10)]" "score s14 = 0" "direction s14 = DIR_RIGHT"
      "tick s14 = BASE_TICK rd" "last_tick s14 = last (now0 # take 14 nows)"
    using prefix[of 14] by auto
  have due: "BASE_TICK rd \<le> fsub rd (nows ! 14) (last (now0 # take 14 nows))"
    using due_times_drop[OF assms(4), of 14] assms(3) by simp
  have "take (Suc 14) nows = nows" using assms(3) by simp
  moreover have "take (Suc 14) nows = take 14 nows @ [nows ! 14]"
    using assms(3) by (intro take_Suc_conv_app_nth) simp
  ultimately have split: "nows = take 14 nows @ [nows ! 14]" by simp
  have last_round: "run_game_iteration rd rnd s14 (None, nows ! 14) = Some (Returned 0 ''wall'')"
    using s14 due
    by (simp add: run_game_iteration_def run_game_tick_def turn_def DIR_RIGHT_def WIDTH_def Let_def)
  have "run_game_loop rd rnd s0 (map (Pair None) (take 14 nows @ [nows ! 14])) = Some (Returned 0 ''wall'')"
    using s14(1) last_round by (simp add: run_game_loop_append)
  then have wall: "run_game rd rnd i0 now0 (map (Pair None) nows) = Some (Returned 0 ''wall'')"
    using split by (simp add: run)
  have "\<exists>s. run_game rd rnd i0 now0 (map (Pair None) (take k nows)) = Some (Running s)
            \<and> snake s = [(15 + int k, 10), (14 + int k, 10), (13 + int k, 10)] \<and> score s = 0
            \<and> next_head (snake s) (direction s) = (16 + int k, 10)" if "k \<le> 14" for k
    using prefix[OF that] by (auto simp: run next_head_def DIR_RIGHT_def)
  then show ?thesis using s0 one wall by blast
qed


theorem wall_scenario_witness:
  "run_game_start (\<lambda>x. x) (\<lambda>_. 0) 0 0
     = Some \<lparr>snake = [(15, 10), (14, 10), (13, 10)], direction = DIR_RIGHT, score = 0, food = (0, 0),
             last_tick = 0, tick = 12 / 100, rng = 2\<rparr>
   \<and> due_times (\<lambda>x. x) (BASE_TICK (\<lambda>x. x)) 0 [1, 2, 3, 4, 5, 6, 7, 8, 9, 10, 11, 12, 13, 14, 15]
   \<and> (\<exists>s. run_game (\<lambda>x. x) (\<lambda>_. 0) 0 0 (map (Pair None) [1, 2, 3, 4, 5, 6, 7, 8, 9, 10, 11, 12, 13, 14])
            = Some (Running s) \<and> snake s = [(29, 10), (28, 10), (27, 10)] \<and> score s = 0
            \<and> next_head (snake s) (direction s) = (30, 10))
   \<and> run_game (\<lambda>x. x) (\<lambda>_. 0) 0 0 (map (Pair None) [1, 2, 3, 4, 5, 6, 7, 8, 9, 10, 11, 12, 13, 14, 15])
        = Some (Returned 0 ''wall'')"
proof -
  let ?s0 = "\<lparr>snake = [(15, 10), (14, 10), (13, 10)], direction = DIR_RIGHT, score = 0, food = (0, 0),
             last_tick = 0, tick = 12 / 100, rng = 2\<rparr>"
  let ?nows = "[1, 2, 3, 4, 5, 6, 7, 8, 9, 10, 11, 12, 13, 14, 15] :: real list"
  have st: "run_game_start (\<lambda>x. x) (\<lambda>_. 0) 0 0 = Some ?s0"
    by (simp add: run_game_start_def place_food_accept start_snake_def WIDTH_def HEIGHT_def
        draw_pos_def randint_def BASE_TICK_def)
  have fd: "\<not> (snd (food ?s0) = 10 \<and> 15 < fst (food ?s0))" by simp
  have len: "length ?nows = 15" by simp
  have due: "due_times (\<lambda>x. x) (BASE_TICK (\<lambda>x. x)) 0 ?nows" by (simp add: BASE_TICK_def fsub_def)
  have k: "(14::nat) \<le> 14" by simp
  from wall_scenario[OF st fd len due] k
  have "\<exists>s. run_game (\<lambda>x. x) (\<lambda>_. 0) 0 0 (map (Pair None) (take 14 ?nows)) = Some (Running s)
            \<and> snake s = [(15 + int 14, 10), (14 + int 14, 10), (13 + int 14, 10)] \<and> score s = 0
            \<and> next_head (snake s) (direction s) = (16 + int 14, 10)"
    and "run_game (\<lambda>x. x) (\<lambda>_. 0) 0 0 (map (Pair None) ?nows) = Some (Returned 0 ''wall'')"
    by blast+
  then show ?thesis using st due by simp
qed

subsection \<open>Keys and directions\<close>

lemmas key_defs = KEY_TO_DIR_def KEY_TO_DIR_items_def ESC_def
  DIR_UP_def DIR_DOWN_def DIR_LEFT_def DIR_RIGHT_def

lemma KEY_TO_DIR_range:
  "KEY_TO_DIR k = Some c \<Longrightarrow> c \<in> {DIR_UP, DIR_DOWN, DIR_LEFT, DIR_RIGHT}"
  by (auto simp: key_defs split: if_splits)

lemma dom_KEY_TO_DIR:
  "dom KEY_TO_DIR = {''H'', ''P'', ''K'', ''M'',
      [ESC, CHR ''['', CHR ''A''], [ESC, CHR ''['', CHR ''B''],
      [ESC, CHR ''['', CHR ''D''], [ESC, CHR ''['', CHR ''C''],
      ''w'', ''s'', ''a'', ''d'', ''W'', ''S'', ''A'', ''D''}"
  unfolding KEY_TO_DIR_def KEY_TO_DIR_items_def by (simp add: dom_map_of_conv_image_fst)

text \<open>
  Claim C5. For each of the four directions \<open>d\<close>: \<^verbatim>\<open>is_opposite(d, d)\<close> is false and
  \<^verbatim>\<open>is_opposite\<close> holds of \<open>d\<close> and its negation; a key of the table mapped to the
  negation of \<open>d\<close> leaves the direction \<open>d\<close>, and a key mapped to any other
  direction, \<open>d\<close> itself or a perpendicular one, makes that direction the current one.
\<close>

theorem direction_update:
  assumes "d \<in> {DIR_UP, DIR_DOWN, DIR_LEFT, DIR_RIGHT}" and "KEY_TO_DIR k = Some c"
  shows "\<not> is_opposite d d
     \<and> is_opposite d (- fst d, - snd d) \<and> is_opposite (- fst d, - snd d) d
     \<and> (c = (- fst d, - snd d) \<longrightarrow> turn (Some k) d = d)
     \<and> (c \<noteq> (- fst d, - snd d) \<longrightarrow> turn (Some k) d = c)
     \<and> (\<forall>rd rnd s now. direction s = d \<and> \<not> tick s \<le> fsub rd now (last_tick s) \<longrightarrow>
          run_game_iteration rd rnd s (Some k, now) = Some (Running (s\<lparr>direction := turn (Some k) d\<rparr>)))"
proof -
  have kq: "k \<noteq> ''q''" "k \<noteq> ''Q''" using assms(2) by (auto simp: key_defs split: if_splits)
  have a: "\<not> is_opposite d d" using assms(1)
    by (auto simp: is_opposite_def DIR_UP_def DIR_DOWN_def DIR_LEFT_def DIR_RIGHT_def)
  have b: "is_opposite d (- fst d, - snd d)" "is_opposite (- fst d, - snd d) d"
    by (simp_all add: is_opposite_def)
  have c: "is_opposite c d \<longleftrightarrow> c = (- fst d, - snd d)"
    by (cases c) (auto simp: is_opposite_def)
  show ?thesis using a b c assms(2) kq
    by (simp add: turn_def run_game_iteration_def Let_def)
qed

theorem direction_update_witness:
  "DIR_RIGHT \<in> {DIR_UP, DIR_DOWN, DIR_LEFT, DIR_RIGHT}
   \<and> KEY_TO_DIR ''a'' = Some DIR_LEFT \<and> DIR_LEFT = (- fst DIR_RIGHT, - snd DIR_RIGHT)
   \<and> turn (Some ''a'') DIR_RIGHT = DIR_RIGHT
   \<and> KEY_TO_DIR ''w'' = Some DIR_UP \<and> DIR_UP \<noteq> (- fst DIR_RIGHT, - snd DIR_RIGHT)
   \<and> turn (Some ''w'') DIR_RIGHT = DIR_UP
   \<and> direction demo_s0 = DIR_RIGHT \<and> \<not> tick demo_s0 \<le> fsub (\<lambda>x. x) (1 / 100) (last_tick demo_s0)
   \<and> run_game_iteration (\<lambda>x. x) demo_rnd demo_s0 (Some ''w'', 1 / 100)
        = Some (Running (demo_s0\<lparr>direction := DIR_UP\<rparr>))"
proof -
  have d: "DIR_RIGHT \<in> {DIR_UP, DIR_DOWN, DIR_LEFT, DIR_RIGHT}" by simp
  have a: "KEY_TO_DIR ''a'' = Some DIR_LEFT" and w: "KEY_TO_DIR ''w'' = Some DIR_UP"
    by (simp_all add: KEY_TO_DIR_def KEY_TO_DIR_items_def ESC_def)
  have o: "DIR_LEFT = (- fst DIR_RIGHT, - snd DIR_RIGHT)" "DIR_UP \<noteq> (- fst DIR_RIGHT, - snd DIR_RIGHT)"
    by (simp_all add: DIR_LEFT_def DIR_RIGHT_def DIR_UP_def)
  have st: "direction demo_s0 = DIR_RIGHT \<and> \<not> tick demo_s0 \<le> fsub (\<lambda>x. x) (1 / 100) (last_tick demo_s0)"
    by (simp add: demo_s0_def fsub_def)
  have t1: "turn (Some ''a'') DIR_RIGHT = DIR_RIGHT" using direction_update[OF d a] o by blast
  have t2: "turn (Some ''w'') DIR_RIGHT = DIR_UP" using direction_update[OF d w] o by blast
  have "run_game_iteration (\<lambda>x. x) demo_rnd demo_s0 (Some ''w'', 1 / 100)
        = Some (Running (demo_s0\<lparr>direction := turn (Some ''w'') DIR_RIGHT\<rparr>))"
    using direction_update[OF d w] st by blast
  then show ?thesis using d a w o st t1 t2 by simp
qed

text \<open>
  Claim C8. The table maps \<open>w\<close>, \<open>W\<close> to up, \<open>s\<close>, \<open>S\<close> to down, \<open>a\<close>, \<open>A\<close> to
  left, \<open>d\<close>, \<open>D\<close> to right, and the arrow codes of Windows and of ANSI terminals to
  the same four directions; \<open>q\<close> and \<open>Q\<close> end the session with the reason \<open>quit\<close>.
  A key of the table acts on the game: the round goes on with the direction the table
  gives for the key, unless that is the opposite of the current direction, and the
  update of the round, if one is due, moves the snake that way. Every other key changes
  nothing: the direction stays, the round does what it does when no key was read, and a
  round that does not update the game leaves the whole state as it was.
\<close>

theorem key_table:
  "KEY_TO_DIR ''w'' = Some DIR_UP \<and> KEY_TO_DIR ''W'' = Some DIR_UP
   \<and> KEY_TO_DIR ''s'' = Some DIR_DOWN \<and> KEY_TO_DIR ''S'' = Some DIR_DOWN
   \<and> KEY_TO_DIR ''a'' = Some DIR_LEFT \<and> KEY_TO_DIR ''A'' = Some DIR_LEFT
   \<and> KEY_TO_DIR ''d'' = Some DIR_RIGHT \<and> KEY_TO_DIR ''D'' = Some DIR_RIGHT
   \<and> KEY_TO_DIR ''H'' = Some DIR_UP \<and> KEY_TO_DIR ''P'' = Some DIR_DOWN
   \<and> KEY_TO_DIR ''K'' = Some DIR_LEFT \<and> KEY_TO_DIR ''M'' = Some DIR_RIGHT
   \<and> KEY_TO_DIR [ESC, CHR ''['', CHR ''A''] = Some DIR_UP
   \<and> KEY_TO_DIR [ESC, CHR ''['', CHR ''B''] = Some DIR_DOWN
   \<and> KEY_TO_DIR [ESC, CHR ''['', CHR ''D''] = Some DIR_LEFT
   \<and> KEY_TO_DIR [ESC, CHR ''['', CHR ''C''] = Some DIR_RIGHT
   \<and> run_game_iteration rd rnd s (Some ''q'', now) = Some (Returned (score s) ''quit'')
   \<and> run_game_iteration rd rnd s (Some ''Q'', now) = Some (Returned (score s) ''quit'')
   \<and> (\<forall>k c. KEY_TO_DIR k = Some c \<longrightarrow>
          turn (Some k) (direction s) = (if is_opposite c (direction s) then direction s else c)
        \<and> run_game_iteration rd rnd s (Some k, now) =
            (if tick s \<le> fsub rd now (last_tick s)
             then run_game_tick rd rnd now
                    (s\<lparr>direction := if is_opposite c (direction s) then direction s else c\<rparr>)
             else Some (Running (s\<lparr>direction := if is_opposite c (direction s) then direction s else c\<rparr>)))
        \<and> (\<forall>s1. run_game_iteration rd rnd s (Some k, now) = Some (Running s1) \<longrightarrow>
              direction s1 = (if is_opposite c (direction s) then direction s else c)))
   \<and> (\<forall>k. k \<notin> set (map fst KEY_TO_DIR_items) \<and> k \<noteq> ''q'' \<and> k \<noteq> ''Q'' \<longrightarrow>
          turn (Some k) (direction s) = direction s
        \<and> run_game_iteration rd rnd s (Some k, now) = run_game_iteration rd rnd s (None, now)
        \<and> (\<not> tick s \<le> fsub rd now (last_tick s) \<longrightarrow>
              run_game_iteration rd rnd s (Some k, now) = Some (Running s)))"
proof -
  have tab: "KEY_TO_DIR ''w'' = Some DIR_UP \<and> KEY_TO_DIR ''W'' = Some DIR_UP
   \<and> KEY_TO_DIR ''s'' = Some DIR_DOWN \<and> KEY_TO_DIR ''S'' = Some DIR_DOWN
   \<and> KEY_TO_DIR ''a'' = Some DIR_LEFT \<and> KEY_TO_DIR ''A'' = Some DIR_LEFT
   \<and> KEY_TO_DIR ''d'' = Some DIR_RIGHT \<and> KEY_TO_DIR ''D'' = Some DIR_RIGHT
   \<and> KEY_TO_DIR ''H'' = Some DIR_UP \<and> KEY_TO_DIR ''P'' = Some DIR_DOWN
   \<and> KEY_TO_DIR ''K'' = Some DIR_LEFT \<and> KEY_TO_DIR ''M'' = Some DIR_RIGHT
   \<and> KEY_TO_DIR [ESC, CHR ''['', CHR ''A''] = Some DIR_UP
   \<and> KEY_TO_DIR [ESC, CHR ''['', CHR ''B''] = Some DIR_DOWN
   \<and> KEY_TO_DIR [ESC, CHR ''['', CHR ''D''] = Some DIR_LEFT
   \<and> KEY_TO_DIR [ESC, CHR ''['', CHR ''C''] = Some DIR_RIGHT"
    by (simp add: KEY_TO_DIR_def KEY_TO_DIR_items_def ESC_def)
  have quit: "run_game_iteration rd rnd s (Some ''q'', now) = Some (Returned (score s) ''quit'')"
    "run_game_iteration rd rnd s (Some ''Q'', now) = Some (Returned (score s) ''quit'')"
    by (simp_all add: run_game_iteration_def)
  have mapped: "turn (Some k) (direction s) = (if is_opposite c (direction s) then direction s else c)
        \<and> run_game_iteration rd rnd s (Some k, now) =
            (if tick s \<le> fsub rd now (last_tick s)
             then run_game_tick rd rnd now
                    (s\<lparr>direction := if is_opposite c (direction s) then direction s else c\<rparr>)
             else Some (Running (s\<lparr>direction := if is_opposite c (direction s) then direction s else c\<rparr>)))
        \<and> (\<forall>s1. run_game_iteration rd rnd s (Some k, now) = Some (Running s1) \<longrightarrow>
              direction s1 = (if is_opposite c (direction s) then direction s else c))"
    if kc: "KEY_TO_DIR k = Some c" for k c
  proof -
    let ?d = "if is_opposite c (direction s) then direction s else c"
    have kq: "k \<noteq> ''q''" "k \<noteq> ''Q''" using kc by (auto simp: key_defs split: if_splits)
    have t: "turn (Some k) (direction s) = ?d" using kc by (simp add: turn_def)
    have r: "run_game_iteration rd rnd s (Some k, now) =
            (if tick s \<le> fsub rd now (last_tick s)
             then run_game_tick rd rnd now (s\<lparr>direction := ?d\<rparr>)
             else Some (Running (s\<lparr>direction := ?d\<rparr>)))"
      using kq t by (simp add: run_game_iteration_def Let_def)
    have "direction s1 = ?d" if run: "run_game_iteration rd rnd s (Some k, now) = Some (Running s1)" for s1
    proof (cases "tick s \<le> fsub rd now (last_tick s)")
      case True
      then have "run_game_tick rd rnd now (s\<lparr>direction := ?d\<rparr>) = Some (Running s1)"
        using run r by simp
      from tick_running[OF this] show ?thesis by simp
    next
      case False
      then show ?thesis using run r by auto
    qed
    then show ?thesis using t r by blast
  qed
  have other: "turn (Some k) (direction s) = direction s
        \<and> run_game_iteration rd rnd s (Some k, now) = run_game_iteration rd rnd s (None, now)
        \<and> (\<not> tick s \<le> fsub rd now (last_tick s) \<longrightarrow>
              run_game_iteration rd rnd s (Some k, now) = Some (Running s))"
    if k: "k \<notin> set (map fst KEY_TO_DIR_items) \<and> k \<noteq> ''q'' \<and> k \<noteq> ''Q''" for k
  proof -
    have "KEY_TO_DIR k = None" using k unfolding KEY_TO_DIR_def by (simp add: map_of_eq_None_iff)
    then have t: "turn (Some k) (direction s) = direction s" by (simp add: turn_def)
    have n: "turn None (direction s) = direction s" by (simp add: turn_def)
    show ?thesis using k t n by (simp add: run_game_iteration_def Let_def)
  qed
  show ?thesis using tab quit mapped other by blast
qed

theorem key_table_witness:
  "KEY_TO_DIR ''w'' = Some DIR_UP \<and> \<not> is_opposite DIR_UP (direction demo_s0)
   \<and> \<not> tick demo_s0 \<le> fsub (\<lambda>x. x) (1 / 100) (last_tick demo_s0)
   \<and> turn (Some ''w'') (direction demo_s0) = DIR_UP
   \<and> run_game_iteration (\<lambda>x. x) demo_rnd demo_s0 (Some ''w'', 1 / 100)
        = Some (Running (demo_s0\<lparr>direction := DIR_UP\<rparr>))
   \<and> run_game_iteration (\<lambda>x. x) demo_rnd demo_s0 (None, 1 / 100) = Some (Running demo_s0)
   \<and> demo_s0\<lparr>direction := DIR_UP\<rparr> \<noteq> demo_s0
   \<and> KEY_TO_DIR ''s'' = Some DIR_DOWN
   \<and> run_game_iteration (\<lambda>x. x) demo_rnd demo_s1 (Some ''s'', 2) = Some (Running demo_s2)
   \<and> direction demo_s1 = DIR_RIGHT \<and> direction demo_s2 = DIR_DOWN
   \<and> ''x'' \<notin> set (map fst KEY_TO_DIR_items) \<and> ''x'' \<noteq> ''q'' \<and> ''x'' \<noteq> ''Q''
   \<and> \<not> tick demo_s1 \<le> fsub (\<lambda>x. x) (101 / 100) (last_tick demo_s1)
   \<and> run_game_iteration (\<lambda>x. x) demo_rnd demo_s1 (Some ''x'', 101 / 100) = Some (Running demo_s1)
   \<and> run_game_iteration (\<lambda>x. x) demo_rnd demo_s1 (Some ''x'', 2)
       = run_game_iteration (\<lambda>x. x) demo_rnd demo_s1 (None, 2)"
proof -
  note t0 = key_table[of "\<lambda>x. x" demo_rnd demo_s0 "1 / 100"]
  note t1 = key_table[of "\<lambda>x. x" demo_rnd demo_s1 2]
  note t2 = key_table[of "\<lambda>x. x" demo_rnd demo_s1 "101 / 100"]
  have w: "KEY_TO_DIR ''w'' = Some DIR_UP" by (rule t0[THEN conjunct1])
  have sk: "KEY_TO_DIR ''s'' = Some DIR_DOWN"
    by (rule t0[THEN conjunct2, THEN conjunct2, THEN conjunct1])
  note m0 = t0[THEN conjunct2, THEN conjunct2, THEN conjunct2, THEN conjunct2, THEN conjunct2, THEN conjunct2, THEN conjunct2, THEN conjunct2, THEN conjunct2, THEN conjunct2, THEN conjunct2, THEN conjunct2, THEN conjunct2, THEN conjunct2, THEN conjunct2, THEN conjunct2, THEN conjunct2, THEN conjunct2, THEN conjunct1, rule_format, OF w]
  note m1 = t1[THEN conjunct2, THEN conjunct2, THEN conjunct2, THEN conjunct2, THEN conjunct2, THEN conjunct2, THEN conjunct2, THEN conjunct2, THEN conjunct2, THEN conjunct2, THEN conjunct2, THEN conjunct2, THEN conjunct2, THEN conjunct2, THEN conjunct2, THEN conjunct2, THEN conjunct2, THEN conjunct2, THEN conjunct1, rule_format, OF sk]
  have no: "\<not> is_opposite DIR_UP (direction demo_s0)"
    by (simp add: is_opposite_def demo_s0_def DIR_UP_def DIR_RIGHT_def)
  have nd0: "\<not> tick demo_s0 \<le> fsub (\<lambda>x. x) (1 / 100) (last_tick demo_s0)"
    by (simp add: demo_s0_def fsub_def)
  have tw: "turn (Some ''w'') (direction demo_s0) = DIR_UP"
    using m0[THEN conjunct1] no by simp
  have rw: "run_game_iteration (\<lambda>x. x) demo_rnd demo_s0 (Some ''w'', 1 / 100)
        = Some (Running (demo_s0\<lparr>direction := DIR_UP\<rparr>))"
    using m0[THEN conjunct2, THEN conjunct1] no nd0 by simp
  have rn: "run_game_iteration (\<lambda>x. x) demo_rnd demo_s0 (None, 1 / 100) = Some (Running demo_s0)"
    by (simp add: run_game_iteration_def turn_def demo_s0_def fsub_def)
  have diff: "demo_s0\<lparr>direction := DIR_UP\<rparr> \<noteq> demo_s0"
    by (simp add: demo_s0_def DIR_UP_def DIR_RIGHT_def)
  have r2: "run_game_iteration (\<lambda>x. x) demo_rnd demo_s1 (Some ''s'', 2) = Some (Running demo_s2)"
    by (rule demo_round2)
  have d1: "direction demo_s1 = DIR_RIGHT" by (simp add: demo_s1_def)
  have "\<not> is_opposite DIR_DOWN (direction demo_s1)"
    by (simp add: is_opposite_def demo_s1_def DIR_DOWN_def DIR_RIGHT_def)
  then have d2: "direction demo_s2 = DIR_DOWN"
    using m1[THEN conjunct2, THEN conjunct2, rule_format, OF r2] by simp
  have k1: "''x'' \<notin> set (map fst KEY_TO_DIR_items)" and k2: "''x'' \<noteq> ''q''" and k3: "''x'' \<noteq> ''Q''"
    by (simp_all add: KEY_TO_DIR_items_def ESC_def)
  have k: "''x'' \<notin> set (map fst KEY_TO_DIR_items) \<and> ''x'' \<noteq> ''q'' \<and> ''x'' \<noteq> ''Q''"
    using k1 k2 k3 by simp
  have nd: "\<not> tick demo_s1 \<le> fsub (\<lambda>x. x) (101 / 100) (last_tick demo_s1)"
    by (simp add: demo_s1_def fsub_def)
  have a: "run_game_iteration (\<lambda>x. x) demo_rnd demo_s1 (Some ''x'', 101 / 100) = Some (Running demo_s1)"
    by (rule t2[THEN conjunct2, THEN conjunct2, THEN conjunct2, THEN conjunct2, THEN conjunct2, THEN conjunct2, THEN conjunct2, THEN conjunct2, THEN conjunct2, THEN conjunct2, THEN conjunct2, THEN conjunct2, THEN conjunct2, THEN conjunct2, THEN conjunct2, THEN conjunct2, THEN conjunct2, THEN conjunct2, THEN conjunct2, rule_format, OF k, THEN conjunct2, THEN conjunct2, rule_format, OF nd])
  have b: "run_game_iteration (\<lambda>x. x) demo_rnd demo_s1 (Some ''x'', 2)
       = run_game_iteration (\<lambda>x. x) demo_rnd demo_s1 (None, 2)"
    by (rule t1[THEN conjunct2, THEN conjunct2, THEN conjunct2, THEN conjunct2, THEN conjunct2, THEN conjunct2, THEN conjunct2, THEN conjunct2, THEN conjunct2, THEN conjunct2, THEN conjunct2, THEN conjunct2, THEN conjunct2, THEN conjunct2, THEN conjunct2, THEN conjunct2, THEN conjunct2, THEN conjunct2, THEN conjunct2, rule_format, OF k, THEN conjunct2, THEN conjunct1])
  show ?thesis
    by (intro conjI) (rule w no nd0 tw rw rn diff sk r2 d1 d2 k1 k2 k3 nd a b)+
qed

subsection \<open>The start of \<^verbatim>\<open>main\<close>\<close>

lemma main_loop_runs: "1 \<le> snd (main_loop sessions) \<and> Requires_msvcrt \<notin> set (fst (main_loop sessions))"
  by (induction sessions rule: main_loop.induct) (auto split: prod.splits)

text \<open>
  Claim C9 asks that the program prints a diagnostic and starts no session when neither
  way of reading a key is there. On Windows without \<^verbatim>\<open>msvcrt\<close> it does. On the platform
  \<open>bare_posix\<close> it does not: \<^verbatim>\<open>read_key_posix\<close> reads no key, whatever is typed, and
  \<^verbatim>\<open>main\<close> prints no diagnostic and calls \<^verbatim>\<open>run_game\<close>.
\<close>

theorem main_starts_without_input:
  "main \<lparr>os_name = ''nt'', has_msvcrt = False, has_select = False\<rparr> sessions = ([Requires_msvcrt], 0)
   \<and> \<not> has_msvcrt bare_posix \<and> \<not> has_select bare_posix
   \<and> read_key_posix bare_posix ready reads = (None, 0)
   \<and> main bare_posix sessions = main_loop sessions
   \<and> 1 \<le> snd (main bare_posix sessions)
   \<and> Requires_msvcrt \<notin> set (fst (main bare_posix sessions))
   \<and> main bare_posix [((0, ''wall''), ''n'')] = ([Blank, Game_over ''wall'' 0, Play_again], 1)"
  using main_loop_runs[of sessions]
  by (simp add: bare_posix_def read_key_posix_def main_def)

end
